theory Spec2Isabelle
  imports Main "HOL-Library.Product_Lexorder"
begin

text \<open>
  A model of \<open>you_dlp.py\<close>: the filename sanitizer \<open>sanitize_filename\<close>, the
  menu builder \<open>get_video_formats\<close> and the download driver \<open>download_video\<close>
  with \<open>get_video_info\<close>. Definitions come first, in the order of the source; the
  properties follow.
\<close>

section \<open>Strings\<close>

text \<open>
  A Python \<open>str\<close> is a sequence of Unicode code points. The title handled by
  \<open>sanitize_filename\<close> is modelled as the list of its code points, so that
  \<open>len\<close> is \<open>length\<close> and a slice is \<open>take\<close>. Format ids, codec names and the
  deduplication keys are only ever compared and concatenated; they are kept as
  \<open>string\<close>.
\<close>

type_synonym pystr = "nat list"

definition ascii :: "string \<Rightarrow> pystr" where
  "ascii s = map of_char s"

section \<open>sanitize\_filename\<close>

text \<open>
  The character class \<^verbatim>\<open>[<>:"/\\|?*\x00-\x1f]\<close> of the first \<open>re.sub\<close>:
  the nine punctuation characters and the code points 0 to 31.
\<close>

definition illegal_char :: "nat \<Rightarrow> bool" where
  "illegal_char c \<longleftrightarrow> c \<in> {60, 62, 58, 34, 47, 92, 124, 63, 42} \<or> c \<le> 31"

text \<open>
  \<^verbatim>\<open>\s\<close> in a \<open>str\<close> pattern and \<open>str.strip()\<close> without argument use the same
  test, the one behind \<open>str.isspace\<close>: the code points CPython lists as Unicode
  whitespace.
\<close>

definition isspace :: "nat \<Rightarrow> bool" where
  "isspace c \<longleftrightarrow>
     (9 \<le> c \<and> c \<le> 13) \<or> (28 \<le> c \<and> c \<le> 32) \<or> c = 133 \<or> c = 160 \<or> c = 5760 \<or>
     (8192 \<le> c \<and> c \<le> 8202) \<or> c = 8232 \<or> c = 8233 \<or> c = 8239 \<or> c = 8287 \<or>
     c = 12288"

text \<open>\<^verbatim>\<open>re.sub(r'[<>:"/\\|?*\x00-\x1f]', '', title)\<close>\<close>

definition remove_illegal :: "pystr \<Rightarrow> pystr" where
  "remove_illegal title = filter (\<lambda>c. \<not> illegal_char c) title"

text \<open>
  \<^verbatim>\<open>re.sub(r'\s+', ' ', sanitized)\<close>: every maximal run of whitespace becomes one
  space (code point 32).
\<close>

function collapse_spaces :: "pystr \<Rightarrow> pystr" where
  "collapse_spaces [] = []"
| "collapse_spaces (c # cs) =
     (if isspace c then 32 # collapse_spaces (dropWhile isspace cs)
      else c # collapse_spaces cs)"
  by pat_completeness auto
termination
  by (relation "measure length") (auto simp: length_dropWhile_le less_Suc_eq_le)

text \<open>\<open>str.strip()\<close>: whitespace is removed from both ends.\<close>

definition strip :: "pystr \<Rightarrow> pystr" where
  "strip s = rev (dropWhile isspace (rev (dropWhile isspace s)))"

definition sanitize_filename :: "pystr \<Rightarrow> pystr" where
  "sanitize_filename title =
     (if title = [] then ascii ''video''
      else
        let sanitized = remove_illegal title;
            sanitized = strip (collapse_spaces sanitized);
            sanitized = (if length sanitized > 200 then take 200 sanitized else sanitized)
        in if sanitized = [] then ascii ''video'' else sanitized)"


fun single_spaced :: "pystr \<Rightarrow> bool" where
  "single_spaced [] = True"
| "single_spaced [c] = (isspace c \<longrightarrow> c = 32)"
| "single_spaced (c # d # cs) = ((isspace c \<longrightarrow> c = 32 \<and> \<not> isspace d) \<and> single_spaced (d # cs))"

definition sanitized :: "pystr \<Rightarrow> bool" where
  "sanitized t \<longleftrightarrow> t \<noteq> [] \<and> (\<forall>c\<in>set t. \<not> illegal_char c) \<and> single_spaced t \<and>
     \<not> isspace (hd t) \<and> length t \<le> 200"


section \<open>get\_video\_formats\<close>

text \<open>
  A format descriptor is one dict of \<open>result['formats']\<close>. Every key the function
  reads is optional: \<open>None\<close> is the absent key, so that \<open>f.get(k)\<close> is the field
  and \<open>f.get(k, d)\<close> the field with a default. Numbers are Python's unbounded
  integers. A key that is present and holds Python's \<open>None\<close>, and non-integral
  numbers, are outside this embedding.
\<close>

record descriptor =
  f_format_id :: "string option"
  f_vcodec :: "string option"
  f_acodec :: "string option"
  f_height :: "int option"
  f_width :: "int option"
  f_fps :: "int option"
  f_tbr :: "int option"
  f_abr :: "int option"
  f_ext :: "string option"
  f_filesize :: "int option"
  f_filesize_approx :: "int option"

text \<open>
  The \<open>resolution\<close> text of a menu entry is one of three f-string templates. It is kept
  as the template together with the values that fill its holes, in the order of the
  source:
  \<^item> \<^verbatim>\<open>{height}p{fps_str} ... Complete{size_str}\<close>,
  \<^item> \<^verbatim>\<open>{height}p{fps_str} ... Auto-merge{audio_info}{size_str}\<close>,
  \<^item> \<^verbatim>\<open>... Audio Only - {abr}kbps ({ext.upper()})\<close>.

  An optional hole is \<open>None\<close> where the source puts the empty string (or the word
  \<open>unknown\<close> for a missing \<open>abr\<close>); the last hole of the third template holds the
  upper-cased \<open>ext\<close>.
\<close>

datatype label =
  LabelComplete int "int option" "int option"
| LabelAutoMerge int "int option" "int option" "int option"
| LabelAudioOnly "int option" string

text \<open>
  The dict appended to \<open>formats\<close>, key by key; \<open>priority\<close> is the rank class
  (1 complete, 2 video-only to be merged, 3 audio-only).
\<close>

record menu_entry =
  format_id :: string
  resolution :: label
  has_video :: bool
  has_audio :: bool
  height :: int
  ext :: string
  filesize :: int
  merge_needed :: bool
  best_audio_id :: "string option"
  priority :: int
  fps :: int

text \<open>How an integer is printed inside an f-string: decimal, with a sign if negative.\<close>

definition digit_char :: "nat \<Rightarrow> char" where
  "digit_char d = char_of (48 + d)"

fun str_nat :: "nat \<Rightarrow> string" where
  "str_nat n = (if n < 10 then [digit_char n] else str_nat (n div 10) @ [digit_char (n mod 10)])"

declare str_nat.simps [simp del]

definition str_int :: "int \<Rightarrow> string" where
  "str_int i = (if i < 0 then CHR ''-'' # str_nat (nat (- i)) else str_nat (nat i))"

text \<open>\<open>x.get(k, 0)\<close> on a number, and \<open>x or 0\<close>: both are the number, or 0.\<close>

definition get0 :: "int option \<Rightarrow> int" where
  "get0 v = (case v of None \<Rightarrow> 0 | Some n \<Rightarrow> n)"

text \<open>Truth value of \<open>f.get(k)\<close> for a number: absent and 0 are false.\<close>

definition truthy :: "int option \<Rightarrow> bool" where
  "truthy v = (case v of None \<Rightarrow> False | Some n \<Rightarrow> n \<noteq> 0)"

text \<open>
  \<^verbatim>\<open>f.get('acodec') != 'none' and f.get('vcodec') == 'none'\<close>: an absent
  \<open>acodec\<close> is not the string \<open>none\<close>, an absent \<open>vcodec\<close> is not equal to it.
\<close>

definition is_audio_format :: "descriptor \<Rightarrow> bool" where
  "is_audio_format f \<longleftrightarrow> f_acodec f \<noteq> Some ''none'' \<and> f_vcodec f = Some ''none''"

text \<open>
  \<open>max(xs, key=k)\<close> keeps the first item and replaces it only by a later one whose key
  is strictly greater; on the empty list it raises, which is \<open>None\<close> here.
\<close>

fun max_from :: "('a \<Rightarrow> int) \<Rightarrow> 'a \<Rightarrow> 'a list \<Rightarrow> 'a" where
  "max_from key m [] = m"
| "max_from key m (x # xs) = max_from key (if key m < key x then x else m) xs"

definition py_max :: "('a \<Rightarrow> int) \<Rightarrow> 'a list \<Rightarrow> 'a option" where
  "py_max key xs = (case xs of [] \<Rightarrow> None | x # ys \<Rightarrow> Some (max_from key x ys))"

definition best_audio_of :: "descriptor list \<Rightarrow> descriptor option" where
  "best_audio_of formats =
     (let audio_formats = filter is_audio_format formats
      in if audio_formats \<noteq> [] then py_max (\<lambda>x. get0 (f_abr x)) audio_formats else None)"

text \<open>
  \<open>sorted(xs, key=k, reverse=True)\<close>: descending, and stable, so items with equal
  keys keep their input order. CPython reverses, sorts stably and reverses again.
\<close>

definition sorted_reverse :: "('a \<Rightarrow> 'k::linorder) \<Rightarrow> 'a list \<Rightarrow> 'a list" where
  "sorted_reverse key xs = rev (sort_key key (rev xs))"

definition quality_key :: "descriptor \<Rightarrow> int \<times> int \<times> int" where
  "quality_key x = (get0 (f_height x), get0 (f_width x), get0 (f_tbr x))"

text \<open>\<^verbatim>\<open>f.get('filesize') or f.get('filesize_approx', 0)\<close>\<close>

definition filesize_of :: "descriptor \<Rightarrow> int" where
  "filesize_of f =
     (if truthy (f_filesize f) then get0 (f_filesize f) else get0 (f_filesize_approx f))"

text \<open>
  The holes \<open>fps_str\<close> (filled only if \<open>fps\<close> is true) and \<open>size_str\<close> (filled
  with \<open>filesize//1024//1024\<close> only if \<open>filesize > 0\<close>).
\<close>

definition fps_str :: "int option \<Rightarrow> int option" where
  "fps_str fr = (if truthy fr then fr else None)"

definition size_str :: "int \<Rightarrow> int option" where
  "size_str fsize = (if fsize > 0 then Some (fsize div 1024 div 1024) else None)"

text \<open>
  \<open>ext.upper()\<close>, printed in the audio-only label. The container name is ASCII text:
  the letters \<open>a\<close> to \<open>z\<close> become \<open>A\<close> to \<open>Z\<close>, every other character stays as
  it is.
\<close>

definition upper_char :: "char \<Rightarrow> char" where
  "upper_char c =
     (if 97 \<le> (of_char c :: nat) \<and> (of_char c :: nat) \<le> 122
      then char_of ((of_char c :: nat) - 32) else c)"

definition str_upper :: "string \<Rightarrow> string" where
  "str_upper s = map upper_char s"

text \<open>
  The three \<open>format_key\<close> f-strings: \<^verbatim>\<open>complete_{height}_{fps or 0}\<close>,
  \<^verbatim>\<open>video_merge_{height}_{fps or 0}\<close> and \<^verbatim>\<open>audio_only_{abr}\<close>, where \<open>abr\<close>
  is \<open>f.get('abr', 'unknown')\<close>.
\<close>

definition complete_key :: "int \<Rightarrow> int \<Rightarrow> string" where
  "complete_key h fr = ''complete_'' @ str_int h @ ''_'' @ str_int fr"

definition video_merge_key :: "int \<Rightarrow> int \<Rightarrow> string" where
  "video_merge_key h fr = ''video_merge_'' @ str_int h @ ''_'' @ str_int fr"

definition audio_only_key :: "int option \<Rightarrow> string" where
  "audio_only_key abr =
     ''audio_only_'' @ (case abr of Some a \<Rightarrow> str_int a | None \<Rightarrow> ''unknown'')"

text \<open>
  The body of the \<open>for\<close> loop up to the duplicate test: \<open>None\<close> where the source
  does \<open>continue\<close>, otherwise the \<open>format_key\<close> and the dict that is appended if the
  key is new.
\<close>

definition menu_item :: "descriptor option \<Rightarrow> bool \<Rightarrow> descriptor \<Rightarrow> (string \<times> menu_entry) option" where
  "menu_item best_audio show_all f =
     (if f_format_id f = None \<or> f_format_id f = Some [] then None
      else
        let fid = (case f_format_id f of Some i \<Rightarrow> i | None \<Rightarrow> []);
            vcodec = (case f_vcodec f of Some c \<Rightarrow> c | None \<Rightarrow> ''none'');
            acodec = (case f_acodec f of Some c \<Rightarrow> c | None \<Rightarrow> ''none'');
            hgt = f_height f;
            fr = f_fps f;
            ex = (case f_ext f of Some e \<Rightarrow> e | None \<Rightarrow> ''mp4'');
            fsize = filesize_of f;
            entry = (\<lambda>desc merge prio.
              \<lparr> format_id = fid, resolution = desc,
                has_video = (vcodec \<noteq> ''none''), has_audio = (acodec \<noteq> ''none''),
                height = get0 hgt, ext = ex, filesize = fsize, merge_needed = merge,
                best_audio_id =
                  (case best_audio of
                     Some b \<Rightarrow> if merge then f_format_id b else None
                   | None \<Rightarrow> None),
                priority = prio, fps = get0 fr \<rparr>)
        in
          if vcodec = ''none'' \<and> \<not> show_all then None
          else if vcodec \<noteq> ''none'' \<and> truthy hgt then
            (if acodec \<noteq> ''none'' then
               Some (complete_key (get0 hgt) (get0 fr),
                     entry (LabelComplete (get0 hgt) (fps_str fr) (size_str fsize)) False 1)
             else
               Some (video_merge_key (get0 hgt) (get0 fr),
                     entry (LabelAutoMerge (get0 hgt) (fps_str fr)
                              (case best_audio of
                                 Some b \<Rightarrow> Some (case f_abr b of Some a \<Rightarrow> a | None \<Rightarrow> 128)
                               | None \<Rightarrow> None)
                              (size_str fsize)) True 2))
          else if acodec \<noteq> ''none'' \<and> show_all then
            Some (audio_only_key (f_abr f),
                  entry (LabelAudioOnly (f_abr f) (str_upper ex)) False 3)
          else None)"

text \<open>
  The loop: \<open>seen_formats\<close> is the set of keys met so far, \<open>formats\<close> the list built
  so far; an item whose key is already in the set is skipped.
\<close>

fun collect ::
  "descriptor option \<Rightarrow> bool \<Rightarrow> descriptor list \<Rightarrow> string set \<Rightarrow> menu_entry list \<Rightarrow> menu_entry list"
where
  "collect best_audio show_all [] seen_formats formats = formats"
| "collect best_audio show_all (f # fs) seen_formats formats =
     (case menu_item best_audio show_all f of
        None \<Rightarrow> collect best_audio show_all fs seen_formats formats
      | Some (format_key, e) \<Rightarrow>
          if format_key \<notin> seen_formats
          then collect best_audio show_all fs (insert format_key seen_formats) (formats @ [e])
          else collect best_audio show_all fs seen_formats formats)"

text \<open>
  What \<open>extract_info\<close> gave: it raised, it returned nothing or a dict without
  \<open>formats\<close>, or it returned the list of descriptors. In the first case the
  \<open>except\<close> clause logs, shows an error on the page and returns the empty list; only
  the returned list is modelled. On integer-valued descriptors nothing else inside the
  \<open>try\<close> can raise. The value \<open>vbr\<close> is read by the loop and never used.
\<close>

datatype extraction = ExtractRaised | NoFormats | Formats "descriptor list"

definition sort_priority :: "menu_entry \<Rightarrow> int \<times> int \<times> int" where
  "sort_priority x = (priority x, - height x, - fps x)"

definition get_video_formats :: "extraction \<Rightarrow> bool \<Rightarrow> menu_entry list" where
  "get_video_formats result show_all =
     (case result of
        ExtractRaised \<Rightarrow> []
      | NoFormats \<Rightarrow> []
      | Formats fmts \<Rightarrow>
          let best_audio = best_audio_of fmts;
              sorted_formats = sorted_reverse quality_key fmts;
              formats = collect best_audio show_all sorted_formats {} []
          in sort_key sort_priority formats)"


section \<open>get\_video\_info and download\_video\<close>

text \<open>
  The two functions talk to the file system, to yt-dlp and to the Streamlit page. What
  the outside world answers is an argument of the model (\<open>world\<close>); what the function
  does to it is the list of events it returns, in the order of the calls. The callbacks
  yt-dlp makes into \<open>progress_hook\<close> while a download runs belong to the download and
  are not part of the list. The options \<open>quiet\<close>, \<open>progress_hooks\<close> and
  \<open>extractor_args\<close> are the same in every call and are left out of \<open>ydl_opts\<close>;
  \<open>opt_no_warnings\<close> is false where the dict has no such key, and
  \<open>opt_outtmpl\<close> is the pair of arguments given to \<open>os.path.join\<close>. The chosen
  menu entry is a \<open>menu_entry\<close>, so \<open>format_info['format_id']\<close> is always there.
\<close>

record info_dict =
  i_title :: "pystr option"
  i_duration :: "int option"
  i_uploader :: "pystr option"
  i_id :: "pystr option"
  i_thumbnail :: "pystr option"
  i_description :: "pystr option"

record video_info =
  title :: pystr
  duration :: int
  uploader :: pystr
  video_id :: pystr
  thumbnail :: pystr
  description :: pystr

datatype info_outcome = InfoRaised pystr | Info info_dict

datatype download_outcome = Completed | DownloadError pystr | OtherError pystr

record ydl_opts =
  opt_format :: string
  opt_outtmpl :: "pystr \<times> pystr"
  opt_no_warnings :: bool
  opt_postprocessors :: "(string \<times> string) list"

datatype st_message =
  CannotCreateDirectory pystr
| NoWritePermission pystr
| NoVideoInformation
| QualityNoLongerAvailable
| VideoUnavailable
| FFmpegError
| DownloadErrorText pystr
| DownloadFailed pystr

datatype md_message = DownloadingSeparately | DownloadedSeparately | DownloadCompleted

datatype log_message = ErrorGettingInfo pystr | DownloadFailedLog pystr

datatype event =
  ExtractInfo pystr
| Download pystr ydl_opts
| StError st_message
| Markdown md_message
| LogError log_message

text \<open>
  \<open>makedirs\<close>: the text of the exception \<open>os.makedirs\<close> raises, or \<open>None\<close>;
  \<open>access_w\<close>: the answer of \<open>os.access(path, os.W_OK)\<close>; \<open>extract_info\<close>: what
  \<open>ydl.extract_info(url, download=False)\<close> gives; \<open>download\<close>: how the n-th
  \<open>ydl.download\<close> call of the run ends; \<open>lower\<close>: \<open>str.lower\<close>.
\<close>

record world =
  makedirs :: "pystr \<Rightarrow> pystr option"
  access_w :: "pystr \<Rightarrow> bool"
  extract_info :: "pystr \<Rightarrow> info_outcome"
  download :: "nat \<Rightarrow> download_outcome"
  lower :: "pystr \<Rightarrow> pystr"

definition get_video_info :: "world \<Rightarrow> pystr \<Rightarrow> video_info option \<times> event list" where
  "get_video_info w url =
     (case extract_info w url of
        InfoRaised e \<Rightarrow> (None, [ExtractInfo url, LogError (ErrorGettingInfo e)])
      | Info info \<Rightarrow>
          (Some \<lparr> title = (case i_title info of Some t \<Rightarrow> t | None \<Rightarrow> ascii ''Unknown Title''),
                  duration = get0 (i_duration info),
                  uploader = (case i_uploader info of Some u \<Rightarrow> u | None \<Rightarrow> ascii ''Unknown''),
                  video_id = (case i_id info of Some i \<Rightarrow> i | None \<Rightarrow> []),
                  thumbnail = (case i_thumbnail info of Some t \<Rightarrow> t | None \<Rightarrow> []),
                  description =
                    (case i_description info of
                       Some d \<Rightarrow> if d \<noteq> [] then take 200 d @ ascii ''...'' else []
                     | None \<Rightarrow> []) \<rparr>,
           [ExtractInfo url]))"

text \<open>\<open>sub in s\<close> for strings.\<close>

fun contains :: "pystr \<Rightarrow> pystr \<Rightarrow> bool" where
  "contains sub [] = (sub = [])"
| "contains sub (c # cs) = (take (length sub) (c # cs) = sub \<or> contains sub cs)"

text \<open>The two \<open>except\<close> clauses of \<open>download_video\<close>.\<close>

definition on_failure :: "world \<Rightarrow> download_outcome \<Rightarrow> event list" where
  "on_failure w outcome =
     (case outcome of
        Completed \<Rightarrow> []
      | DownloadError error_msg \<Rightarrow>
          (if contains (ascii ''requested format not available'') (lower w error_msg)
           then [StError QualityNoLongerAvailable]
           else if contains (ascii ''video unavailable'') (lower w error_msg)
           then [StError VideoUnavailable]
           else if contains (ascii ''ffmpeg'') (lower w error_msg)
           then [StError FFmpegError]
           else [StError (DownloadErrorText error_msg)])
      | OtherError e \<Rightarrow> [LogError (DownloadFailedLog e), StError (DownloadFailed e)])"

definition download_video ::
  "world \<Rightarrow> pystr \<Rightarrow> menu_entry \<Rightarrow> pystr \<Rightarrow> string \<Rightarrow> bool \<times> event list"
where
  "download_video w url format_info output_path merge_option =
     (case makedirs w output_path of
        Some e \<Rightarrow> (False, [StError (CannotCreateDirectory e)])
      | None \<Rightarrow>
          if \<not> access_w w output_path
          then (False, [StError (NoWritePermission output_path)])
          else
            (case get_video_info w url of
               (None, ev) \<Rightarrow> (False, ev @ [StError NoVideoInformation])
             | (Some info, ev) \<Rightarrow>
                 let safe_title = sanitize_filename (title info);
                     fid = format_id format_info;
                     single = (\<lambda>ydl_opts.
                       case download w 0 of
                         Completed \<Rightarrow>
                           (True, ev @ [Download url ydl_opts, Markdown DownloadCompleted])
                       | failed \<Rightarrow>
                           (False, ev @ [Download url ydl_opts] @ on_failure w failed))
                 in
                   if merge_needed format_info \<and> merge_option = ''merge'' then
                     single \<lparr> opt_format = fid @ ''+bestaudio/best'',
                              opt_outtmpl = (output_path, safe_title @ ascii ''_merged.%(ext)s''),
                              opt_no_warnings = True,
                              opt_postprocessors = [(''FFmpegVideoConvertor'', ''mp4'')] \<rparr>
                   else if merge_needed format_info \<and> merge_option = ''separate'' then
                     let video_opts =
                           \<lparr> opt_format = fid,
                             opt_outtmpl = (output_path, safe_title @ ascii ''_video.%(ext)s''),
                             opt_no_warnings = False, opt_postprocessors = [] \<rparr>;
                         audio_opts =
                           \<lparr> opt_format = ''bestaudio'',
                             opt_outtmpl = (output_path, safe_title @ ascii ''_audio.%(ext)s''),
                             opt_no_warnings = False, opt_postprocessors = [] \<rparr>;
                         ev1 = ev @ [Markdown DownloadingSeparately, Download url video_opts]
                     in
                       (case download w 0 of
                          Completed \<Rightarrow>
                            (case download w 1 of
                               Completed \<Rightarrow>
                                 (True, ev1 @ [Download url audio_opts,
                                               Markdown DownloadedSeparately])
                             | failed \<Rightarrow>
                                 (False, ev1 @ [Download url audio_opts] @ on_failure w failed))
                        | failed \<Rightarrow> (False, ev1 @ on_failure w failed))
                   else
                     single \<lparr> opt_format = fid,
                              opt_outtmpl = (output_path, safe_title @ ascii ''.%(ext)s''),
                              opt_no_warnings = True, opt_postprocessors = [] \<rparr>))"

text \<open>The format selectors of the download calls of a run, in order.\<close>

fun download_formats :: "event list \<Rightarrow> string list" where
  "download_formats [] = []"
| "download_formats (Download url opts # evs) = opt_format opts # download_formats evs"
| "download_formats (ev # evs) = download_formats evs"

fun download_calls :: "event list \<Rightarrow> ydl_opts list" where
  "download_calls [] = []"
| "download_calls (Download url opts # evs) = opts # download_calls evs"
| "download_calls (ev # evs) = download_calls evs"

fun network_calls :: "event list \<Rightarrow> event list" where
  "network_calls [] = []"
| "network_calls (ExtractInfo url # evs) = ExtractInfo url # network_calls evs"
| "network_calls (Download url opts # evs) = Download url opts # network_calls evs"
| "network_calls (ev # evs) = network_calls evs"


section \<open>Concrete inputs\<close>

text \<open>A descriptor with no key at all, to be filled in.\<close>

definition no_keys :: descriptor where
  "no_keys = \<lparr> f_format_id = None, f_vcodec = None, f_acodec = None, f_height = None,
               f_width = None, f_fps = None, f_tbr = None, f_abr = None, f_ext = None,
               f_filesize = None, f_filesize_approx = None \<rparr>"

text \<open>The three descriptors of scenario A.\<close>

definition d18 :: descriptor where
  "d18 = no_keys \<lparr> f_format_id := Some ''18'', f_vcodec := Some ''h264'',
                   f_acodec := Some ''aac'', f_height := Some 360 \<rparr>"

definition d137 :: descriptor where
  "d137 = no_keys \<lparr> f_format_id := Some ''137'', f_vcodec := Some ''h264'',
                    f_acodec := Some ''none'', f_height := Some 1080 \<rparr>"

definition d140 :: descriptor where
  "d140 = no_keys \<lparr> f_format_id := Some ''140'', f_vcodec := Some ''none'',
                    f_acodec := Some ''aac'', f_abr := Some 128 \<rparr>"

definition scenario_A :: "descriptor list" where
  "scenario_A = [d18, d137, d140]"

text \<open>A second video-only format, 720 lines high.\<close>

definition d136 :: descriptor where
  "d136 = no_keys \<lparr> f_format_id := Some ''136'', f_vcodec := Some ''h264'',
                    f_acodec := Some ''none'', f_height := Some 720 \<rparr>"

text \<open>A stream with picture and sound whose height yt-dlp does not report.\<close>

definition d_no_height :: descriptor where
  "d_no_height = no_keys \<lparr> f_format_id := Some ''hls-1'', f_vcodec := Some ''h264'',
                           f_acodec := Some ''aac'' \<rparr>"

text \<open>
  A world in which everything works: the directory exists and is writable, the title
  is "clip", every download completes.
\<close>

definition ascii_lower :: "pystr \<Rightarrow> pystr" where
  "ascii_lower s = map (\<lambda>c. if 65 \<le> c \<and> c \<le> 90 then c + 32 else c) s"

definition good_world :: world where
  "good_world =
     \<lparr> makedirs = (\<lambda>p. None), access_w = (\<lambda>p. True),
       extract_info = (\<lambda>u. Info \<lparr> i_title = Some (ascii ''clip''), i_duration = None,
                                   i_uploader = None, i_id = None, i_thumbnail = None,
                                   i_description = None \<rparr>),
       download = (\<lambda>n. Completed), lower = ascii_lower \<rparr>"

text \<open>The menu entries of scenario A for the formats 18 and 137.\<close>

definition option_18 :: menu_entry where
  "option_18 =
     \<lparr> format_id = ''18'', resolution = LabelComplete 360 None None,
       has_video = True, has_audio = True, height = 360, ext = ''mp4'', filesize = 0,
       merge_needed = False, best_audio_id = None, priority = 1, fps = 0 \<rparr>"


definition option_137 :: menu_entry where
  "option_137 =
     \<lparr> format_id = ''137'', resolution = LabelAutoMerge 1080 None (Some 128) None,
       has_video = True, has_audio = False, height = 1080, ext = ''mp4'', filesize = 0,
       merge_needed = True, best_audio_id = Some ''140'', priority = 2, fps = 0 \<rparr>"


section \<open>Auxiliary notions for the proofs\<close>

text \<open>
  The descriptors whose entry the loop appends, in the order of the appends: the loop
  again, keeping the descriptor instead of the dict.
\<close>

fun picked :: "descriptor option \<Rightarrow> bool \<Rightarrow> descriptor list \<Rightarrow> string set \<Rightarrow> descriptor list" where
  "picked best_audio show_all [] seen_formats = []"
| "picked best_audio show_all (f # fs) seen_formats =
     (case menu_item best_audio show_all f of
        None \<Rightarrow> picked best_audio show_all fs seen_formats
      | Some (format_key, e) \<Rightarrow>
          if format_key \<notin> seen_formats
          then f # picked best_audio show_all fs (insert format_key seen_formats)
          else picked best_audio show_all fs seen_formats)"

definition key_of :: "descriptor option \<Rightarrow> bool \<Rightarrow> descriptor \<Rightarrow> string" where
  "key_of best_audio show_all f =
     (case menu_item best_audio show_all f of Some (k, e) \<Rightarrow> k | None \<Rightarrow> [])"

definition entry_of :: "descriptor option \<Rightarrow> bool \<Rightarrow> descriptor \<Rightarrow> menu_entry option" where
  "entry_of best_audio show_all f = map_option snd (menu_item best_audio show_all f)"

text \<open>The order the final \<open>formats.sort\<close> establishes, written out.\<close>

definition menu_order :: "menu_entry \<Rightarrow> menu_entry \<Rightarrow> bool" where
  "menu_order a b \<longleftrightarrow>
     priority a < priority b \<or>
     (priority a = priority b \<and>
       (height b < height a \<or> (height a = height b \<and> fps b \<le> fps a)))"

text \<open>A descriptor with a video codec and no \<open>height\<close> key.\<close>

definition heightless_video :: "descriptor \<Rightarrow> bool" where
  "heightless_video f \<longleftrightarrow>
     f_vcodec f \<noteq> None \<and> f_vcodec f \<noteq> Some ''none'' \<and> f_height f = None"


section \<open>sanitize\_filename: the shape of the result\<close>

lemma set_collapse_spaces: "c \<in> set (collapse_spaces xs) \<Longrightarrow> c = 32 \<or> c \<in> set xs"
  by (induction xs rule: collapse_spaces.induct) (auto split: if_splits dest: set_dropWhileD)

lemma strip_take: "\<exists>k. strip s = take k (dropWhile isspace s)"
  unfolding strip_def by (metis dropWhile_eq_drop rev_drop rev_rev_ident rev_swap)

lemma set_strip: "c \<in> set (strip s) \<Longrightarrow> c \<in> set s"
  using strip_take[of s] by (auto dest!: in_set_takeD set_dropWhileD)

lemma hd_collapse_spaces:
  "xs \<noteq> [] \<Longrightarrow> \<not> isspace (hd xs) \<Longrightarrow> collapse_spaces xs \<noteq> [] \<and> \<not> isspace (hd (collapse_spaces xs))"
  by (cases xs) auto

lemma single_spaced_Cons:
  "single_spaced (c # cs) \<longleftrightarrow> (isspace c \<longrightarrow> c = 32 \<and> (cs \<noteq> [] \<longrightarrow> \<not> isspace (hd cs))) \<and> single_spaced cs"
  by (cases cs) auto

lemma single_spaced_collapse: "single_spaced (collapse_spaces xs)"
proof (induction xs rule: collapse_spaces.induct)
  case 1
  then show ?case by simp
next
  case (2 c cs)
  show ?case
  proof (cases "isspace c")
    case True
    have "collapse_spaces (dropWhile isspace cs) \<noteq> [] \<Longrightarrow>
          \<not> isspace (hd (collapse_spaces (dropWhile isspace cs)))"
      using hd_collapse_spaces[of "dropWhile isspace cs"] hd_dropWhile[of isspace cs]
      by (cases "dropWhile isspace cs = []") auto
    with True 2 show ?thesis by (simp add: single_spaced_Cons)
  next
    case False
    with 2 show ?thesis by (simp add: single_spaced_Cons)
  qed
qed

lemma collapse_single_spaced: "single_spaced xs \<Longrightarrow> collapse_spaces xs = xs"
proof (induction xs rule: single_spaced.induct)
  case (3 c d cs)
  then show ?case by (auto simp: dropWhile_eq_self_iff)
qed auto

lemma single_spaced_drop: "single_spaced xs \<Longrightarrow> single_spaced (drop n xs)"
proof (induction n arbitrary: xs)
  case (Suc n)
  then show ?case by (cases xs) (auto simp: single_spaced_Cons)
qed simp

lemma single_spaced_prefix: "single_spaced (xs @ ys) \<Longrightarrow> single_spaced xs"
proof (induction xs rule: single_spaced.induct)
  case (2 c)
  then show ?case by (cases ys) auto
qed auto

lemma single_spaced_take: "single_spaced xs \<Longrightarrow> single_spaced (take n xs)"
  using single_spaced_prefix[of "take n xs" "drop n xs"] by simp

lemma single_spaced_strip: "single_spaced xs \<Longrightarrow> single_spaced (strip xs)"
proof -
  assume a: "single_spaced xs"
  obtain k where k: "strip xs = take k (dropWhile isspace xs)" using strip_take by blast
  have "single_spaced (dropWhile isspace xs)"
    using a by (simp add: dropWhile_eq_drop single_spaced_drop)
  then show ?thesis unfolding k by (rule single_spaced_take)
qed

lemma hd_strip: "strip xs \<noteq> [] \<Longrightarrow> \<not> isspace (hd (strip xs))"
proof -
  assume a: "strip xs \<noteq> []"
  obtain k where k: "strip xs = take k (dropWhile isspace xs)" using strip_take by blast
  with a have "dropWhile isspace xs \<noteq> []" "k \<noteq> 0" by auto
  then have "hd (strip xs) = hd (dropWhile isspace xs)" using k by (simp add: hd_take)
  then show ?thesis using hd_dropWhile[of isspace xs] \<open>dropWhile isspace xs \<noteq> []\<close> by simp
qed

lemma strip_id:
  assumes "xs \<noteq> []" "\<not> isspace (hd xs)" "\<not> isspace (last xs)"
  shows "strip xs = xs"
proof -
  have 1: "dropWhile isspace xs = xs" using assms by (simp add: dropWhile_eq_self_iff)
  have 2: "dropWhile isspace (rev xs) = rev xs"
    using assms by (simp add: dropWhile_eq_self_iff hd_rev)
  show ?thesis by (simp add: strip_def 1 2)
qed

lemma single_spaced_last: "single_spaced xs \<Longrightarrow> xs \<noteq> [] \<Longrightarrow> isspace (last xs) \<Longrightarrow> last xs = 32"
  by (induction xs rule: single_spaced.induct) auto


lemma ascii_video: "ascii ''video'' = [118, 105, 100, 101, 111]"
  by (simp add: ascii_def)

lemma space_not_illegal: "\<not> illegal_char 32"
  by (simp add: illegal_char_def)

lemma not_illegal_collapse:
  assumes "\<forall>c\<in>set xs. \<not> illegal_char c"
  shows "\<forall>c\<in>set (collapse_spaces xs). \<not> illegal_char c"
proof
  fix c assume "c \<in> set (collapse_spaces xs)"
  then have "c = 32 \<or> c \<in> set xs" by (rule set_collapse_spaces)
  then show "\<not> illegal_char c" using assms space_not_illegal by blast
qed

lemma sanitized_video: "sanitized (ascii ''video'')"
  by (simp add: sanitized_def ascii_video illegal_char_def isspace_def)

lemma sanitized_sanitize_filename: "sanitized (sanitize_filename s)"
proof -
  define u where "u = strip (collapse_spaces (remove_illegal s))"
  define t where "t = (if length u > 200 then take 200 u else u)"
  have t: "t = take 200 u" by (simp add: t_def)
  have 0: "\<forall>c\<in>set (remove_illegal s). \<not> illegal_char c"
    by (simp add: remove_illegal_def)
  have 1: "\<forall>c\<in>set u. \<not> illegal_char c"
  proof
    fix c assume "c \<in> set u"
    then have "c \<in> set (collapse_spaces (remove_illegal s))"
      unfolding u_def by (rule set_strip)
    then show "\<not> illegal_char c" using not_illegal_collapse[OF 0] by blast
  qed
  have 2: "single_spaced u"
    unfolding u_def by (intro single_spaced_strip single_spaced_collapse)
  have 3: "u \<noteq> [] \<Longrightarrow> \<not> isspace (hd u)"
    unfolding u_def by (rule hd_strip)
  have "t \<noteq> [] \<Longrightarrow> sanitized t"
  proof -
    assume ne: "t \<noteq> []"
    then have "u \<noteq> []" by (auto simp: t)
    moreover have "hd t = hd u" using ne by (simp add: t hd_take)
    moreover have "\<forall>c\<in>set t. \<not> illegal_char c" using 1 by (auto simp: t dest: in_set_takeD)
    moreover have "single_spaced t" unfolding t using 2 by (rule single_spaced_take)
    moreover have "length t \<le> 200" by (simp add: t)
    ultimately show ?thesis using ne 3 by (simp add: sanitized_def)
  qed
  moreover have "sanitize_filename s = (if s = [] \<or> t = [] then ascii ''video'' else t)"
    by (simp add: sanitize_filename_def Let_def t_def u_def)
  ultimately show ?thesis using sanitized_video by auto
qed

lemma sanitize_filename_fixed:
  assumes "sanitized t" "\<not> isspace (last t)"
  shows "sanitize_filename t = t"
proof -
  have ne: "t \<noteq> []" using assms by (simp add: sanitized_def)
  have 1: "remove_illegal t = t" using assms by (simp add: sanitized_def remove_illegal_def)
  have 2: "collapse_spaces t = t" using assms by (simp add: sanitized_def collapse_single_spaced)
  have 3: "strip t = t" using assms by (intro strip_id) (simp_all add: sanitized_def)
  have 4: "length t \<le> 200" using assms by (simp add: sanitized_def)
  show ?thesis using ne 4 by (simp add: sanitize_filename_def 1 2 3)
qed

lemma collapse_spaces_nonspace:
  "\<forall>c\<in>set xs. \<not> isspace c \<Longrightarrow> collapse_spaces (xs @ ys) = xs @ collapse_spaces ys"
  by (induction xs) auto

lemma all_a_facts:
  assumes "set xs \<subseteq> {97::nat}" "xs \<noteq> []"
  shows "hd xs = 97" "last xs = 97" "\<forall>c\<in>set xs. \<not> isspace c" "\<forall>c\<in>set xs. \<not> illegal_char c"
proof -
  have "hd xs \<in> set xs" "last xs \<in> set xs" using assms(2) by simp_all
  then show "hd xs = 97" "last xs = 97" using assms(1) by blast+
  have "\<not> isspace 97" "\<not> illegal_char 97" by (simp_all add: isspace_def illegal_char_def)
  then show "\<forall>c\<in>set xs. \<not> isspace c" "\<forall>c\<in>set xs. \<not> illegal_char c"
    using assms(1) by blast+
qed

lemma sanitize_long:
  assumes "set xs \<subseteq> {97}" "length xs = 199"
  shows "sanitize_filename (xs @ [32, 98]) = xs @ [32]"
proof -
  let ?s = "xs @ [32, 98::nat]"
  have xs: "xs \<noteq> []" using assms(2) by auto
  note f = all_a_facts[OF assms(1) xs]
  have 1: "remove_illegal ?s = ?s"
    using f(4) by (simp add: remove_illegal_def filter_id_conv illegal_char_def)
  have 2: "collapse_spaces ?s = ?s"
    using f(3) by (simp add: collapse_spaces_nonspace isspace_def)
  have 3: "strip ?s = ?s"
    using xs f(1) by (intro strip_id) (simp_all add: isspace_def hd_append)
  show ?thesis using assms(2) xs by (simp add: sanitize_filename_def 1 2 3)
qed

lemma sanitize_cut:
  assumes "set xs \<subseteq> {97}" "length xs = 199"
  shows "sanitize_filename (xs @ [32]) = xs"
proof -
  let ?s = "xs @ [32::nat]"
  have xs: "xs \<noteq> []" using assms(2) by auto
  note f = all_a_facts[OF assms(1) xs]
  have 1: "remove_illegal ?s = ?s"
    using f(4) by (simp add: remove_illegal_def filter_id_conv illegal_char_def)
  have 2: "collapse_spaces ?s = ?s"
    using f(3) by (simp add: collapse_spaces_nonspace isspace_def)
  have a: "dropWhile isspace ?s = ?s"
    using xs f(1) by (simp add: dropWhile_eq_self_iff hd_append isspace_def)
  have b: "dropWhile isspace (rev xs) = rev xs"
    using xs f(2) by (simp add: dropWhile_eq_self_iff hd_rev isspace_def)
  have 3: "strip ?s = xs" by (simp add: strip_def a b isspace_def)
  show ?thesis using assms(2) xs by (simp add: sanitize_filename_def 1 2 3)
qed

text \<open>
  Claim C4, as stated: \<open>sanitize(sanitize(s)) = sanitize(s)\<close> for every string. A title
  of 199 letters \<open>a\<close>, a space and a \<open>b\<close> is cut after the space; the second pass
  strips that space.
\<close>

theorem sanitize_not_idempotent:
  "sanitize_filename (sanitize_filename (replicate 199 97 @ [32, 98]))
     \<noteq> sanitize_filename (replicate 199 97 @ [32, 98])"
proof -
  define xs :: pystr where "xs = replicate 199 97"
  have a: "set xs \<subseteq> {97}" "length xs = 199" by (simp_all add: xs_def)
  have "sanitize_filename (sanitize_filename (xs @ [32, 98])) \<noteq> sanitize_filename (xs @ [32, 98])"
    by (simp add: sanitize_long[OF a] sanitize_cut[OF a])
  then show ?thesis unfolding xs_def .
qed

text \<open>
  Claim C4, amended: \<open>sanitize(sanitize(s)) = sanitize(s)\<close> for every string whose
  sanitized form does not end in a space (code point 32).
\<close>

theorem sanitize_idempotent_unless_trailing_space:
  "last (sanitize_filename s) \<noteq> 32 \<Longrightarrow>
     sanitize_filename (sanitize_filename s) = sanitize_filename s"
proof -
  assume a: "last (sanitize_filename s) \<noteq> 32"
  have s: "sanitized (sanitize_filename s)" by (rule sanitized_sanitize_filename)
  then have "\<not> isspace (last (sanitize_filename s))"
    using a single_spaced_last[of "sanitize_filename s"] by (auto simp: sanitized_def)
  with s show ?thesis by (rule sanitize_filename_fixed)
qed

theorem sanitize_idempotent_witness:
  "sanitize_filename (sanitize_filename (ascii ''a<b   c  '')) = sanitize_filename (ascii ''a<b   c  '')"
proof -
  have "sanitize_filename (ascii ''a<b   c  '') = [97, 98, 32, 99]"
    by (simp add: sanitize_filename_def ascii_def remove_illegal_def illegal_char_def strip_def isspace_def)
  then have "last (sanitize_filename (ascii ''a<b   c  '')) \<noteq> 32" by simp
  then show ?thesis by (rule sanitize_idempotent_unless_trailing_space)
qed

text \<open>
  Claim C7: the result of \<open>sanitize_filename\<close> holds none of the characters
  \<^verbatim>\<open>< > : " / \ | ? *\<close> (code points 60, 62, 58, 34, 47, 92, 124, 63, 42) and no
  code point from 0 to 31; it is at most 200 long; the empty string, and every string
  that is empty after cleaning, gives \<open>video\<close>. The function is total: the model has
  no failing branch because the source has none.
\<close>

theorem sanitize_filename_safe:
  "(\<forall>c\<in>set (sanitize_filename s). c \<notin> {60, 62, 58, 34, 47, 92, 124, 63, 42} \<and> \<not> c \<le> 31) \<and>
   length (sanitize_filename s) \<le> 200 \<and>
   sanitize_filename [] = ascii ''video'' \<and>
   (strip (collapse_spaces (remove_illegal s)) = [] \<longrightarrow> sanitize_filename s = ascii ''video'')"
proof -
  have "sanitized (sanitize_filename s)" by (rule sanitized_sanitize_filename)
  then have "(\<forall>c\<in>set (sanitize_filename s). c \<notin> {60, 62, 58, 34, 47, 92, 124, 63, 42} \<and> \<not> c \<le> 31)"
    and "length (sanitize_filename s) \<le> 200"
    by (auto simp: sanitized_def illegal_char_def)
  moreover have "sanitize_filename [] = ascii ''video''" by (simp add: sanitize_filename_def)
  moreover have "strip (collapse_spaces (remove_illegal s)) = [] \<longrightarrow> sanitize_filename s = ascii ''video''"
    by (simp add: sanitize_filename_def)
  ultimately show ?thesis by blast
qed

theorem sanitize_filename_safe_witness:
  "sanitize_filename [60, 62] = ascii ''video'' \<and>
   47 \<notin> set (sanitize_filename [97, 47, 98]) \<and>
   length (sanitize_filename [97, 47, 98]) \<le> 200"
proof -
  have e: "strip (collapse_spaces (remove_illegal [60, 62])) = []"
    by (simp add: remove_illegal_def illegal_char_def strip_def)
  have "47 \<in> set (sanitize_filename [97, 47, 98]) \<Longrightarrow> False"
    using sanitize_filename_safe [of "[97, 47, 98]"] by auto
  then show ?thesis
    using e sanitize_filename_safe [of "[60, 62]"] sanitize_filename_safe [of "[97, 47, 98]"]
    by blast
qed

section \<open>get\_video\_formats: where the entries come from\<close>

lemma set_sorted_reverse: "set (sorted_reverse key xs) = set xs"
  by (simp add: sorted_reverse_def)

lemma collect_sources:
  "e \<in> set (collect ba sa fs seen acc) \<Longrightarrow>
     e \<in> set acc \<or> (\<exists>f\<in>set fs. \<exists>k. menu_item ba sa f = Some (k, e))"
proof (induction fs arbitrary: seen acc)
  case Nil
  then show ?case by simp
next
  case (Cons f fs)
  show ?case
  proof (cases "menu_item ba sa f")
    case None
    with Cons.prems have "e \<in> set (collect ba sa fs seen acc)" by simp
    from Cons.IH[OF this] show ?thesis by auto
  next
    case (Some p)
    obtain k e' where p: "p = (k, e')" by (cases p)
    show ?thesis
    proof (cases "k \<in> seen")
      case True
      with Cons.prems Some p have "e \<in> set (collect ba sa fs seen acc)" by simp
      from Cons.IH[OF this] show ?thesis by auto
    next
      case False
      with Cons.prems Some p
      have "e \<in> set (collect ba sa fs (insert k seen) (acc @ [e']))" by simp
      from Cons.IH[OF this] Some p show ?thesis by auto
    qed
  qed
qed

lemma menu_sources:
  assumes "e \<in> set (get_video_formats (Formats ds) sa)"
  shows "\<exists>f\<in>set ds. \<exists>k. menu_item (best_audio_of ds) sa f = Some (k, e)"
proof -
  from assms
  have "e \<in> set (collect (best_audio_of ds) sa (sorted_reverse quality_key ds) {} [])"
    by (simp add: get_video_formats_def Let_def)
  from collect_sources[OF this] show ?thesis by (simp add: set_sorted_reverse)
qed

lemma menu_item_cases:
  assumes "menu_item ba sa f = Some (k, e)"
  shows
    "(priority e = 1 \<and> \<not> merge_needed e \<and> has_video e \<and> has_audio e \<and>
      truthy (f_height f) \<and> k = complete_key (get0 (f_height f)) (get0 (f_fps f))) \<or>
     (priority e = 2 \<and> merge_needed e \<and> has_video e \<and> \<not> has_audio e \<and>
      truthy (f_height f) \<and> k = video_merge_key (get0 (f_height f)) (get0 (f_fps f))) \<or>
     (priority e = 3 \<and> \<not> merge_needed e \<and> has_audio e \<and> sa \<and>
      (has_video e \<longrightarrow> \<not> truthy (f_height f)) \<and> k = audio_only_key (f_abr f))"
  using assms unfolding menu_item_def Let_def
  by (simp split: if_splits) auto

lemma menu_item_fields:
  assumes "menu_item ba sa f = Some (k, e)"
  shows "height e = get0 (f_height f)" "fps e = get0 (f_fps f)"
    "f_format_id f = Some (format_id e)"
    "best_audio_id e = (case ba of Some b \<Rightarrow> if merge_needed e then f_format_id b else None
                        | None \<Rightarrow> None)"
    "has_video e \<longleftrightarrow> f_vcodec f \<noteq> None \<and> f_vcodec f \<noteq> Some ''none''"
    "has_audio e \<longleftrightarrow> f_acodec f \<noteq> None \<and> f_acodec f \<noteq> Some ''none''"
  using assms unfolding menu_item_def Let_def
  by (simp_all split: if_splits) (auto split: option.splits)


section \<open>The scenarios, evaluated\<close>

lemma scenario_A_menu:
  "get_video_formats (Formats scenario_A) False = [option_18, option_137]"
  by code_simp

lemma no_height_menu:
  "get_video_formats (Formats [d_no_height]) True =
     [\<lparr> format_id = ''hls-1'', resolution = LabelAudioOnly None ''MP4'',
        has_video = True, has_audio = True, height = 0, ext = ''mp4'', filesize = 0,
        merge_needed = False, best_audio_id = None, priority = 3, fps = 0 \<rparr>]"
  by code_simp

lemma two_video_only_menu:
  "map (\<lambda>e. (format_id e, priority e, height e, fps e))
     (get_video_formats (Formats [d18, d136, d137, d140]) False) =
     [(''18'', 1, 360, 0), (''137'', 2, 1080, 0), (''136'', 2, 720, 0)]"
  by code_simp

text \<open>
  Claim C1, as stated: for scenario A without audio-only entries the menu is the entry
  for 137 (class 2) followed by the entry for 18 (class 1).
\<close>

theorem scenario_A_not_137_first:
  "map (\<lambda>e. (format_id e, priority e, merge_needed e, best_audio_id e))
     (get_video_formats (Formats scenario_A) False)
   \<noteq> [(''137'', 2, True, Some ''140''), (''18'', 1, False, None)]"
  by (simp add: scenario_A_menu option_18_def option_137_def)

text \<open>
  Claim C1, amended: for scenario A without audio-only entries the menu has exactly two
  entries, first the one for 18 (class 1, no merge, no paired audio), then the one for
  137 (class 2, merge needed, paired with 140): the final sort puts the lower class
  first.
\<close>

theorem scenario_A_18_first:
  "map (\<lambda>e. (format_id e, priority e, merge_needed e, best_audio_id e))
     (get_video_formats (Formats scenario_A) False)
   = [(''18'', 1, False, None), (''137'', 2, True, Some ''140'')]"
  by (simp add: scenario_A_menu option_18_def option_137_def)

text \<open>
  Claim C3 on the code: a descriptor with a video and an audio codec must not appear in
  class 2 or 3. With \<open>show_all\<close>, the descriptor \<open>hls-1\<close> (both codecs, no height) is
  all the input, and the menu is one entry that has video and audio and class 3.
\<close>

theorem complete_without_height_gets_class_3:
  "\<exists>e. get_video_formats (Formats [d_no_height]) True = [e] \<and>
       has_video e \<and> has_audio e \<and> priority e = 3 \<and> format_id e = ''hls-1''"
  by (simp add: no_height_menu)


section \<open>The audio stream paired with video-only formats\<close>

lemma max_from_split:
  "\<exists>pre post. m # xs = pre @ max_from key m xs # post \<and>
     (\<forall>x\<in>set pre. key x < key (max_from key m xs)) \<and>
     (\<forall>x\<in>set post. key x \<le> key (max_from key m xs))"
proof (induction xs arbitrary: m)
  case Nil
  show ?case by (intro exI[of _ "[]"]) simp
next
  case (Cons x xs)
  define m' where "m' = (if key m < key x then x else m)"
  define b where "b = max_from key m' xs"
  have b: "max_from key m (x # xs) = b" by (simp add: b_def m'_def)
  from Cons.IH[of m'] obtain pre post where
    d: "m' # xs = pre @ b # post" and
    lt: "\<forall>x\<in>set pre. key x < key b" and le: "\<forall>x\<in>set post. key x \<le> key b"
    unfolding b_def by blast
  have hd_le: "key m' \<le> key b"
  proof (cases pre)
    case Nil
    with d show ?thesis by simp
  next
    case (Cons p ps)
    with d have "m' \<in> set pre" by simp
    with lt show ?thesis by fastforce
  qed
  show ?case
  proof (cases "key m < key x")
    case True
    then have "m' = x" by (simp add: m'_def)
    with d have "m # x # xs = (m # pre) @ b # post" by simp
    moreover have "\<forall>x\<in>set (m # pre). key x < key b"
      using lt hd_le True \<open>m' = x\<close> by auto
    ultimately show ?thesis unfolding b using le by blast
  next
    case False
    then have m': "m' = m" by (simp add: m'_def)
    show ?thesis
    proof (cases pre)
      case Nil
      with d m' have "b = m" "post = xs" by simp_all
      then have "m # x # xs = [] @ b # (x # post)" by simp
      moreover have "\<forall>y\<in>set (x # post). key y \<le> key b"
        using le False \<open>b = m\<close> by auto
      ultimately show ?thesis unfolding b by (metis empty_iff list.set(1))
    next
      case (Cons p ps)
      with d m' have p: "p = m" "xs = ps @ b # post" by simp_all
      then have "m # x # xs = (m # x # ps) @ b # post" by simp
      moreover have "key m < key b" using lt Cons p by simp
      then have "\<forall>y\<in>set (m # x # ps). key y < key b"
        using lt Cons False by auto
      ultimately show ?thesis unfolding b using le by blast
    qed
  qed
qed

lemma filter_eq_append_Cons:
  "filter P ds = us @ b # vs \<Longrightarrow>
     \<exists>pre post. ds = pre @ b # post \<and> filter P pre = us \<and> filter P post = vs \<and> P b"
proof (induction ds arbitrary: us)
  case Nil
  then show ?case by simp
next
  case (Cons d ds)
  show ?case
  proof (cases "P d")
    case False
    with Cons.prems have "filter P ds = us @ b # vs" by simp
    from Cons.IH[OF this] obtain pre post where
      "ds = pre @ b # post" "filter P pre = us" "filter P post = vs" "P b" by blast
    with False have "d # ds = (d # pre) @ b # post \<and> filter P (d # pre) = us \<and>
      filter P post = vs \<and> P b" by simp
    then show ?thesis by blast
  next
    case True
    show ?thesis
    proof (cases us)
      case Nil
      with Cons.prems True have "d = b" "filter P ds = vs" by simp_all
      with True have "d # ds = [] @ b # ds \<and> filter P [] = us \<and> filter P ds = vs \<and> P b"
        using Nil by simp
      then show ?thesis by blast
    next
      case (Cons u us')
      with Cons.prems True have u: "d = u" "filter P ds = us' @ b # vs" by simp_all
      from Cons.IH[OF u(2)] obtain pre post where
        "ds = pre @ b # post" "filter P pre = us'" "filter P post = vs" "P b" by blast
      with True u Cons have "d # ds = (d # pre) @ b # post \<and> filter P (d # pre) = us \<and>
        filter P post = vs \<and> P b" by simp
      then show ?thesis by blast
    qed
  qed
qed

lemma best_audio_split:
  assumes "\<exists>d\<in>set ds. is_audio_format d"
  shows "\<exists>pre b post. ds = pre @ b # post \<and> best_audio_of ds = Some b \<and> is_audio_format b \<and>
     (\<forall>x\<in>set pre. is_audio_format x \<longrightarrow> get0 (f_abr x) < get0 (f_abr b)) \<and>
     (\<forall>x\<in>set post. is_audio_format x \<longrightarrow> get0 (f_abr x) \<le> get0 (f_abr b))"
proof -
  let ?key = "\<lambda>x. get0 (f_abr x)"
  from assms have "filter is_audio_format ds \<noteq> []" by (simp add: filter_empty_conv)
  then obtain a as where a: "filter is_audio_format ds = a # as"
    by (cases "filter is_audio_format ds") auto
  define b where "b = max_from ?key a as"
  have ba: "best_audio_of ds = Some b"
    by (simp add: best_audio_of_def a py_max_def b_def)
  from max_from_split[of a as ?key] obtain us vs where
    s: "a # as = us @ b # vs" and
    lt: "\<forall>x\<in>set us. ?key x < ?key b" and le: "\<forall>x\<in>set vs. ?key x \<le> ?key b"
    unfolding b_def by blast
  from s a have "filter is_audio_format ds = us @ b # vs" by simp
  from filter_eq_append_Cons[OF this] obtain pre post where
    d: "ds = pre @ b # post" and fp: "filter is_audio_format pre = us"
    and fq: "filter is_audio_format post = vs" and pb: "is_audio_format b" by blast
  have "\<forall>x\<in>set pre. is_audio_format x \<longrightarrow> ?key x < ?key b"
    using lt fp by auto
  moreover have "\<forall>x\<in>set post. is_audio_format x \<longrightarrow> ?key x \<le> ?key b"
    using le fq by auto
  ultimately show ?thesis using d ba pb by blast
qed

text \<open>
  Claim C5: when the input holds an audio-only descriptor (\<open>acodec\<close> not \<open>none\<close>,
  \<open>vcodec\<close> equal to \<open>none\<close>), there is one descriptor \<open>b\<close> in the input, audio-only, with
  an \<open>abr\<close> (0 when missing) strictly above that of every audio-only descriptor before
  it and at least that of every audio-only descriptor after it, such that every menu
  entry with \<open>merge_needed\<close> has the format id of \<open>b\<close> as its \<open>best_audio_id\<close>.
\<close>

theorem merge_needed_paired_with_best_audio:
  assumes "\<exists>d\<in>set ds. is_audio_format d"
  shows "\<exists>pre b post. ds = pre @ b # post \<and> is_audio_format b \<and>
     (\<forall>x\<in>set pre. is_audio_format x \<longrightarrow> get0 (f_abr x) < get0 (f_abr b)) \<and>
     (\<forall>x\<in>set post. is_audio_format x \<longrightarrow> get0 (f_abr x) \<le> get0 (f_abr b)) \<and>
     (\<forall>e\<in>set (get_video_formats (Formats ds) show_all).
        merge_needed e \<longrightarrow> best_audio_id e = f_format_id b)"
proof -
  from best_audio_split[OF assms] obtain pre b post where
    s: "ds = pre @ b # post" "best_audio_of ds = Some b" "is_audio_format b"
       "\<forall>x\<in>set pre. is_audio_format x \<longrightarrow> get0 (f_abr x) < get0 (f_abr b)"
       "\<forall>x\<in>set post. is_audio_format x \<longrightarrow> get0 (f_abr x) \<le> get0 (f_abr b)"
    by blast
  have "\<forall>e\<in>set (get_video_formats (Formats ds) show_all).
          merge_needed e \<longrightarrow> best_audio_id e = f_format_id b"
  proof (intro ballI impI)
    fix e assume e: "e \<in> set (get_video_formats (Formats ds) show_all)" and m: "merge_needed e"
    from menu_sources[OF e] obtain f k where
      "menu_item (best_audio_of ds) show_all f = Some (k, e)" by blast
    from menu_item_fields(4)[OF this] s(2) m show "best_audio_id e = f_format_id b" by simp
  qed
  with s show ?thesis by blast
qed

theorem merge_needed_paired_with_best_audio_witness:
  "best_audio_id (get_video_formats (Formats scenario_A) False ! 1) = Some ''140''"
proof -
  have a: "\<exists>d\<in>set scenario_A. is_audio_format d"
    by (simp add: scenario_A_def is_audio_format_def d140_def no_keys_def)
  from merge_needed_paired_with_best_audio[OF a, of False] obtain pre b post where
    s: "scenario_A = pre @ b # post" and b: "is_audio_format b" and
    e: "\<forall>e\<in>set (get_video_formats (Formats scenario_A) False).
          merge_needed e \<longrightarrow> best_audio_id e = f_format_id b"
    by blast
  have "b \<in> set scenario_A" unfolding s by simp
  with b have "b = d140"
    by (auto simp: scenario_A_def is_audio_format_def d18_def d137_def no_keys_def)
  moreover have "get_video_formats (Formats scenario_A) False ! 1 = option_137"
    by (simp add: scenario_A_menu)
  moreover have "option_137 \<in> set (get_video_formats (Formats scenario_A) False)"
    by (simp add: scenario_A_menu)
  moreover have "merge_needed option_137" by (simp add: option_137_def)
  ultimately show ?thesis using e by (simp add: d140_def no_keys_def)
qed


section \<open>Order and duplicates of the menu\<close>

lemma collect_picked:
  "collect ba sa fs seen acc = acc @ map (\<lambda>f. the (entry_of ba sa f)) (picked ba sa fs seen)"
proof (induction fs arbitrary: seen acc)
  case Nil
  show ?case by simp
next
  case (Cons f fs)
  show ?case
  proof (cases "menu_item ba sa f")
    case None
    then show ?thesis by (simp add: Cons.IH)
  next
    case (Some p)
    obtain k e where p: "p = (k, e)" by (cases p)
    show ?thesis using Some p by (simp add: Cons.IH entry_of_def)
  qed
qed

lemma picked_props:
  "set (picked ba sa fs seen) \<subseteq> set fs \<and>
   (\<forall>f\<in>set (picked ba sa fs seen). menu_item ba sa f \<noteq> None \<and> key_of ba sa f \<notin> seen) \<and>
   distinct (map (key_of ba sa) (picked ba sa fs seen))"
proof (induction fs arbitrary: seen)
  case Nil
  show ?case by simp
next
  case (Cons f fs)
  show ?case
  proof (cases "menu_item ba sa f")
    case None
    with Cons.IH[of seen] show ?thesis by auto
  next
    case (Some p)
    obtain k e where p: "p = (k, e)" by (cases p)
    have k: "key_of ba sa f = k" using Some p by (simp add: key_of_def)
    show ?thesis
    proof (cases "k \<in> seen")
      case True
      with Cons.IH[of seen] Some p show ?thesis by auto
    next
      case False
      have "picked ba sa (f # fs) seen = f # picked ba sa fs (insert k seen)"
        using Some p False by simp
      moreover note Cons.IH[of "insert k seen"]
      ultimately show ?thesis using Some k False by auto
    qed
  qed
qed

lemma menu_item_key_entry:
  "menu_item ba sa f \<noteq> None \<Longrightarrow>
     menu_item ba sa f = Some (key_of ba sa f, the (entry_of ba sa f))"
  by (auto simp: key_of_def entry_of_def)

lemma map_insort_key:
  "map f (insort_key (\<lambda>x. g (f x)) x xs) = insort_key g (f x) (map f xs)"
  by (induction xs) simp_all

lemma map_sort_key:
  "map f (sort_key (\<lambda>x. g (f x)) xs) = sort_key g (map f xs)"
  by (induction xs) (simp_all add: map_insort_key)

lemma menu_item_key:
  assumes "menu_item ba sa f = Some (k, e)"
  shows "k = (if priority e = 1 then complete_key (height e) (fps e)
              else if priority e = 2 then video_merge_key (height e) (fps e)
              else audio_only_key (f_abr f))"
  using assms unfolding menu_item_def Let_def
  by (simp split: if_splits) auto

lemma distinct_map_insort_key:
  "distinct (map f (insort_key g x xs)) \<longleftrightarrow> f x \<notin> f ` set xs \<and> distinct (map f xs)"
  by (induction xs) (auto simp: set_insort_key)

lemma distinct_map_sort_key:
  "distinct (map f (sort_key g xs)) \<longleftrightarrow> distinct (map f xs)"
  by (induction xs) (simp_all add: distinct_map_insort_key)

lemma sort_priority_order:
  "sort_priority a \<le> sort_priority b \<Longrightarrow> menu_order a b"
  by (auto simp: sort_priority_def menu_order_def)

lemma sorted_menu_order:
  "sorted_wrt menu_order (sort_key sort_priority formats)"
proof -
  have "sorted (map sort_priority (sort_key sort_priority formats))"
    by (rule sorted_sort_key)
  then have "sorted_wrt (\<lambda>a b. sort_priority a \<le> sort_priority b)
               (sort_key sort_priority formats)"
    by (simp add: sorted_map)
  then show ?thesis
    by (rule sorted_wrt_mono_rel[rotated]) (simp add: sort_priority_order)
qed

text \<open>
  The menu is the image of a list of input descriptors with pairwise different
  \<open>format_key\<close>s.
\<close>

lemma menu_from_sources:
  "\<exists>srcs. get_video_formats (Formats ds) sa =
            map (\<lambda>f. the (entry_of (best_audio_of ds) sa f)) srcs \<and>
          set srcs \<subseteq> set ds \<and>
          (\<forall>f\<in>set srcs. menu_item (best_audio_of ds) sa f \<noteq> None) \<and>
          distinct (map (key_of (best_audio_of ds) sa) srcs)"
proof -
  define ba where "ba = best_audio_of ds"
  define P where "P = picked ba sa (sorted_reverse quality_key ds) {}"
  define en where "en = (\<lambda>f. the (entry_of ba sa f))"
  define srcs where "srcs = sort_key (\<lambda>f. sort_priority (en f)) P"
  have "get_video_formats (Formats ds) sa = sort_key sort_priority (map en P)"
    by (simp add: get_video_formats_def Let_def collect_picked ba_def P_def en_def)
  then have 1: "get_video_formats (Formats ds) sa = map en srcs"
    by (simp add: srcs_def map_sort_key)
  note pp = picked_props[of ba sa "sorted_reverse quality_key ds" "{}", folded P_def]
  have 2: "set srcs \<subseteq> set ds" using pp by (simp add: srcs_def set_sorted_reverse)
  have 3: "\<forall>f\<in>set srcs. menu_item ba sa f \<noteq> None" using pp by (simp add: srcs_def)
  have 4: "distinct (map (key_of ba sa) srcs)"
    using pp by (simp add: srcs_def distinct_map_sort_key)
  show ?thesis using 1 2 3 4 unfolding ba_def en_def by blast
qed

text \<open>
  Claim C6: the menu is sorted by class ascending, then height descending, then fps
  descending; two entries at different places with the same class 1 or 2 differ in
  height or fps; and each entry stems from an input descriptor such that two entries
  at different places with class 3 stem from descriptors with different \<open>abr\<close>
  (a missing \<open>abr\<close> counting as one more value).
\<close>

theorem menu_sorted_and_deduplicated:
  "sorted_wrt menu_order (get_video_formats (Formats ds) sa) \<and>
   (\<exists>srcs. length srcs = length (get_video_formats (Formats ds) sa) \<and>
      (\<forall>i<length srcs.
         srcs ! i \<in> set ds \<and>
         (\<exists>k. menu_item (best_audio_of ds) sa (srcs ! i) =
                 Some (k, get_video_formats (Formats ds) sa ! i))) \<and>
      (\<forall>i<length srcs. \<forall>j<length srcs.
         i \<noteq> j \<and>
         priority (get_video_formats (Formats ds) sa ! i) =
           priority (get_video_formats (Formats ds) sa ! j) \<longrightarrow>
         (if priority (get_video_formats (Formats ds) sa ! i) = 3
          then f_abr (srcs ! i) \<noteq> f_abr (srcs ! j)
          else (height (get_video_formats (Formats ds) sa ! i),
                fps (get_video_formats (Formats ds) sa ! i)) \<noteq>
               (height (get_video_formats (Formats ds) sa ! j),
                fps (get_video_formats (Formats ds) sa ! j)))))"
proof -
  define ba where "ba = best_audio_of ds"
  define menu where "menu = get_video_formats (Formats ds) sa"
  have sorted: "sorted_wrt menu_order menu"
    by (simp add: menu_def get_video_formats_def Let_def sorted_menu_order)
  from menu_from_sources[of ds sa] obtain srcs where
    m: "menu = map (\<lambda>f. the (entry_of ba sa f)) srcs" and
    sub: "set srcs \<subseteq> set ds" and
    some: "\<forall>f\<in>set srcs. menu_item ba sa f \<noteq> None" and
    dist: "distinct (map (key_of ba sa) srcs)"
    unfolding ba_def menu_def by blast
  have len: "length srcs = length menu" by (simp add: m)
  have item: "menu_item ba sa (srcs ! i) = Some (key_of ba sa (srcs ! i), menu ! i)"
    if "i < length srcs" for i
    using that some menu_item_key_entry[of ba sa "srcs ! i"] by (simp add: m)
  have src: "\<forall>i<length srcs. srcs ! i \<in> set ds \<and>
               (\<exists>k. menu_item ba sa (srcs ! i) = Some (k, menu ! i))"
    using item sub by (auto simp: subset_iff)
  have dedup: "\<forall>i<length srcs. \<forall>j<length srcs.
         i \<noteq> j \<and> priority (menu ! i) = priority (menu ! j) \<longrightarrow>
         (if priority (menu ! i) = 3
          then f_abr (srcs ! i) \<noteq> f_abr (srcs ! j)
          else (height (menu ! i), fps (menu ! i)) \<noteq> (height (menu ! j), fps (menu ! j)))"
  proof (intro allI impI)
    fix i j
    assume i: "i < length srcs" and j: "j < length srcs"
      and h: "i \<noteq> j \<and> priority (menu ! i) = priority (menu ! j)"
    have "map (key_of ba sa) srcs ! i \<noteq> map (key_of ba sa) srcs ! j"
      using dist i j h by (simp add: nth_eq_iff_index_eq del: nth_map)
    then have keys: "key_of ba sa (srcs ! i) \<noteq> key_of ba sa (srcs ! j)"
      using i j by simp
    note ki = menu_item_key[OF item[OF i]] and kj = menu_item_key[OF item[OF j]]
    have same: "priority (menu ! j) = priority (menu ! i)" using h by simp
    have cls: "priority (menu ! i) = 1 \<or> priority (menu ! i) = 2 \<or> priority (menu ! i) = 3"
      using menu_item_cases[OF item[OF i]] by blast
    show "if priority (menu ! i) = 3
          then f_abr (srcs ! i) \<noteq> f_abr (srcs ! j)
          else (height (menu ! i), fps (menu ! i)) \<noteq> (height (menu ! j), fps (menu ! j))"
    proof (cases "priority (menu ! i) = 3")
      case True
      have "key_of ba sa (srcs ! i) = audio_only_key (f_abr (srcs ! i))"
        using ki True by simp
      moreover have "key_of ba sa (srcs ! j) = audio_only_key (f_abr (srcs ! j))"
        using kj True same by simp
      ultimately have "f_abr (srcs ! i) \<noteq> f_abr (srcs ! j)" using keys by auto
      with True show ?thesis by simp
    next
      case False
      have "(height (menu ! i), fps (menu ! i)) \<noteq> (height (menu ! j), fps (menu ! j))"
      proof
        assume eq: "(height (menu ! i), fps (menu ! i)) = (height (menu ! j), fps (menu ! j))"
        then have "height (menu ! j) = height (menu ! i)" "fps (menu ! j) = fps (menu ! i)"
          by simp_all
        with ki kj same False cls have "key_of ba sa (srcs ! i) = key_of ba sa (srcs ! j)"
          by (simp split: if_splits)
        with keys show False by simp
      qed
      with False show ?thesis by simp
    qed
  qed
  show ?thesis using sorted len src dedup unfolding menu_def ba_def by blast
qed

theorem menu_sorted_and_deduplicated_witness:
  "priority (get_video_formats (Formats [d18, d136, d137, d140]) False ! 0) <
     priority (get_video_formats (Formats [d18, d136, d137, d140]) False ! 1) \<and>
   priority (get_video_formats (Formats [d18, d136, d137, d140]) False ! 1) =
     priority (get_video_formats (Formats [d18, d136, d137, d140]) False ! 2) \<and>
   (height (get_video_formats (Formats [d18, d136, d137, d140]) False ! 1),
    fps (get_video_formats (Formats [d18, d136, d137, d140]) False ! 1)) \<noteq>
   (height (get_video_formats (Formats [d18, d136, d137, d140]) False ! 2),
    fps (get_video_formats (Formats [d18, d136, d137, d140]) False ! 2))"
proof -
  define menu where "menu = get_video_formats (Formats [d18, d136, d137, d140]) False"
  have ev: "map (\<lambda>e. (format_id e, priority e, height e, fps e)) menu =
     [(''18'', 1, 360, 0), (''137'', 2, 1080, 0), (''136'', 2, 720, 0)]"
    unfolding menu_def by (rule two_video_only_menu)
  have "length (map (\<lambda>e. (format_id e, priority e, height e, fps e)) menu) = 3"
    unfolding ev by simp
  then have len: "length menu = 3" by simp
  have p: "priority (menu ! 0) = 1" "priority (menu ! 1) = 2" "priority (menu ! 2) = 2"
    using arg_cong[OF ev, of "\<lambda>l. l ! 0"] arg_cong[OF ev, of "\<lambda>l. l ! 1"]
      arg_cong[OF ev, of "\<lambda>l. l ! 2"] len by simp_all
  from menu_sorted_and_deduplicated[of "[d18, d136, d137, d140]" False]
  obtain srcs :: "descriptor list" where l: "length srcs = length menu" and
    d: "\<forall>i<length srcs. \<forall>j<length srcs.
         i \<noteq> j \<and> priority (menu ! i) = priority (menu ! j) \<longrightarrow>
         (if priority (menu ! i) = 3
          then f_abr (srcs ! i) \<noteq> f_abr (srcs ! j)
          else (height (menu ! i), fps (menu ! i)) \<noteq> (height (menu ! j), fps (menu ! j)))"
    unfolding menu_def by blast
  have b: "(1::nat) < length srcs" "(2::nat) < length srcs" using l len by simp_all
  from d b have "(1::nat) \<noteq> 2 \<and> priority (menu ! 1) = priority (menu ! 2) \<longrightarrow>
         (if priority (menu ! 1) = 3
          then f_abr (srcs ! 1) \<noteq> f_abr (srcs ! 2)
          else (height (menu ! 1), fps (menu ! 1)) \<noteq> (height (menu ! 2), fps (menu ! 2)))"
    by blast
  with p have "(height (menu ! 1), fps (menu ! 1)) \<noteq> (height (menu ! 2), fps (menu ! 2))"
    by simp
  with p show ?thesis unfolding menu_def by simp
qed


section \<open>Video descriptors without a height\<close>

lemma collect_skip:
  "collect ba sa (filter (\<lambda>g. menu_item ba sa g \<noteq> None) fs) seen acc = collect ba sa fs seen acc"
proof (induction fs arbitrary: seen acc)
  case Nil
  show ?case by simp
next
  case (Cons f fs)
  show ?case
  proof (cases "menu_item ba sa f")
    case None
    then show ?thesis using Cons.IH[of seen acc] by simp
  next
    case (Some p)
    obtain k e where p: "p = (k, e)" by (cases p)
    show ?thesis
      using Some p Cons.IH[of "insert k seen" "acc @ [e]"] Cons.IH[of seen acc] by simp
  qed
qed

lemma filter_sorted_reverse:
  "filter P (sorted_reverse key xs) = sorted_reverse key (filter P xs)"
proof -
  have "filter P (rev (sort_key key (rev xs))) = rev (filter P (sort_key key (rev xs)))"
    by (simp add: rev_filter)
  also have "\<dots> = rev (sort_key key (filter P (rev xs)))"
    by (simp only: filter_sort)
  also have "\<dots> = rev (sort_key key (rev (filter P xs)))"
    by (simp only: rev_filter)
  finally show ?thesis by (simp only: sorted_reverse_def)
qed

lemma best_audio_of_drop:
  "\<not> is_audio_format f \<Longrightarrow> best_audio_of (xs @ f # ys) = best_audio_of (xs @ ys)"
  by (simp add: best_audio_of_def)

lemma menu_drop_skipped:
  assumes "\<not> is_audio_format f" and "menu_item (best_audio_of (xs @ ys)) sa f = None"
  shows "get_video_formats (Formats (xs @ f # ys)) sa = get_video_formats (Formats (xs @ ys)) sa"
proof -
  define ba where "ba = best_audio_of (xs @ ys)"
  let ?Q = "\<lambda>g. menu_item ba sa g \<noteq> None"
  have b: "best_audio_of (xs @ f # ys) = ba"
    using assms(1) by (simp add: best_audio_of_drop ba_def)
  have "filter ?Q (xs @ f # ys) = filter ?Q (xs @ ys)"
    using assms(2) by (simp add: ba_def)
  then have "filter ?Q (sorted_reverse quality_key (xs @ f # ys)) =
             filter ?Q (sorted_reverse quality_key (xs @ ys))"
    by (simp only: filter_sorted_reverse)
  then have "collect ba sa (sorted_reverse quality_key (xs @ f # ys)) {} [] =
             collect ba sa (sorted_reverse quality_key (xs @ ys)) {} []"
    using collect_skip[of ba sa "sorted_reverse quality_key (xs @ f # ys)" "{}" "[]"]
          collect_skip[of ba sa "sorted_reverse quality_key (xs @ ys)" "{}" "[]"]
    by simp
  then show ?thesis
    by (simp add: get_video_formats_def Let_def b ba_def[symmetric])
qed

lemma heightless_video_items:
  assumes "heightless_video f"
  shows "menu_item ba False f = None"
    and "f_acodec f = None \<or> f_acodec f = Some ''none'' \<or>
         f_format_id f = None \<or> f_format_id f = Some [] \<Longrightarrow> menu_item ba True f = None"
    and "menu_item ba True f = Some (k, e) \<Longrightarrow>
           priority e = 3 \<and> \<not> merge_needed e \<and> k = audio_only_key (f_abr f) \<and>
           resolution e = LabelAudioOnly (f_abr f) (str_upper (ext e))"
    and "f_acodec f \<noteq> None \<Longrightarrow> f_acodec f \<noteq> Some ''none'' \<Longrightarrow> f_format_id f \<noteq> None \<Longrightarrow>
           f_format_id f \<noteq> Some [] \<Longrightarrow> menu_item ba True f \<noteq> None"
  using assms unfolding menu_item_def Let_def heightless_video_def truthy_def
  by (auto split: if_splits)

lemma collect_keeps:
  "set acc \<subseteq> set (collect ba sa fs seen acc)"
  by (simp add: collect_picked)

text \<open>
  Every key the loop body produces for some descriptor, and that was not seen before
  the loop, belongs to an entry of the result.
\<close>

lemma collect_represents:
  assumes "f \<in> set fs" and "menu_item ba sa f = Some (k, e0)" and "k \<notin> seen"
  shows "\<exists>g\<in>set fs. \<exists>e\<in>set (collect ba sa fs seen acc). menu_item ba sa g = Some (k, e)"
  using assms
proof (induction fs arbitrary: seen acc)
  case Nil
  then show ?case by simp
next
  case (Cons g fs)
  show ?case
  proof (cases "menu_item ba sa g")
    case None
    with Cons.prems have "f \<in> set fs" by auto
    from Cons.IH[OF this Cons.prems(2) Cons.prems(3), of acc] None show ?thesis by auto
  next
    case (Some p)
    obtain k' e' where p: "p = (k', e')" by (cases p)
    show ?thesis
    proof (cases "k' \<in> seen")
      case True
      with Cons.prems Some p have "f \<in> set fs" by auto
      from Cons.IH[OF this Cons.prems(2) Cons.prems(3), of acc] Some p True
      show ?thesis by auto
    next
      case False
      have c: "collect ba sa (g # fs) seen acc =
               collect ba sa fs (insert k' seen) (acc @ [e'])"
        using Some p False by simp
      show ?thesis
      proof (cases "k' = k")
        case True
        have "e' \<in> set (collect ba sa fs (insert k' seen) (acc @ [e']))"
          using collect_keeps[of "acc @ [e']" ba sa fs "insert k' seen"] by auto
        with Some p True c show ?thesis by auto
      next
        case diff: False
        with Cons.prems Some p have "f \<in> set fs" by auto
        moreover have "k \<notin> insert k' seen" using diff Cons.prems(3) by simp
        ultimately show ?thesis
          using Cons.IH[of "insert k' seen" "acc @ [e']"] Cons.prems(2) c by auto
      qed
    qed
  qed
qed

lemma menu_represents:
  assumes "f \<in> set ds" and "menu_item (best_audio_of ds) sa f = Some (k, e0)"
  shows "\<exists>g\<in>set ds. \<exists>e\<in>set (get_video_formats (Formats ds) sa).
           menu_item (best_audio_of ds) sa g = Some (k, e)"
proof -
  have "f \<in> set (sorted_reverse quality_key ds)"
    using assms(1) by (simp add: set_sorted_reverse)
  from collect_represents[OF this assms(2), of "{}" "[]"]
  show ?thesis by (simp add: get_video_formats_def Let_def set_sorted_reverse)
qed

lemma audio_only_key_class:
  assumes "menu_item ba sa g = Some (audio_only_key a, e)"
  shows "priority e = 3"
proof -
  have "complete_key h fr \<noteq> audio_only_key a" "video_merge_key h fr \<noteq> audio_only_key a"
    for h fr
    by (simp_all add: complete_key_def video_merge_key_def audio_only_key_def)
  with menu_item_cases[OF assms] show ?thesis by metis
qed

lemma video_entries_have_height:
  assumes "e \<in> set (get_video_formats (Formats ds) sa)" and "priority e \<noteq> 3"
  shows "\<exists>g\<in>set ds. truthy (f_height g) \<and>
           (\<exists>k. menu_item (best_audio_of ds) sa g = Some (k, e))"
proof -
  from menu_sources[OF assms(1)] obtain g k where
    g: "g \<in> set ds" "menu_item (best_audio_of ds) sa g = Some (k, e)" by blast
  from menu_item_cases[OF g(2)] assms(2) have "truthy (f_height g)" by blast
  with g show ?thesis by blast
qed

text \<open>
  Claim C10: a descriptor \<open>f\<close> with a video codec and no \<open>height\<close> key never becomes
  a video entry of the menu.
  \<^item> Without \<open>show_all\<close> the loop skips it, and the menu returned is the menu of the
    input without it.
  \<^item> With \<open>show_all\<close>, if its audio codec is \<open>none\<close> or missing (or it has no format
    id) the loop skips it, and again the menu returned is the menu of the input without
    it.
  \<^item> With \<open>show_all\<close>, an audio codec and a format id, the loop classifies it as
    audio-only, and the menu returned holds a class 3 entry under its \<open>audio_only\<close>
    key: its own, or that of a descriptor with the same key that the loop met first.
  \<^item> Whatever it yields is an audio-only entry: class 3, no merge, the \<open>audio_only\<close>
    key and the audio-only label.
  \<^item> With either flag, every entry of the menu returned that is not in class 3 was
    made from a descriptor with a height that is known and not 0, hence not from \<open>f\<close>.
\<close>

theorem heightless_video_not_a_video_entry:
  assumes "heightless_video f"
  shows "menu_item ba False f = None \<and>
     get_video_formats (Formats (xs @ f # ys)) False = get_video_formats (Formats (xs @ ys)) False \<and>
     (f_acodec f = None \<or> f_acodec f = Some ''none'' \<or>
      f_format_id f = None \<or> f_format_id f = Some [] \<longrightarrow>
        menu_item ba True f = None \<and>
        get_video_formats (Formats (xs @ f # ys)) True =
          get_video_formats (Formats (xs @ ys)) True) \<and>
     (f_acodec f \<noteq> None \<and> f_acodec f \<noteq> Some ''none'' \<and>
      f_format_id f \<noteq> None \<and> f_format_id f \<noteq> Some [] \<longrightarrow>
        menu_item ba True f \<noteq> None \<and>
        (\<exists>g\<in>set (xs @ f # ys). \<exists>e\<in>set (get_video_formats (Formats (xs @ f # ys)) True).
           priority e = 3 \<and>
           menu_item (best_audio_of (xs @ f # ys)) True g =
             Some (audio_only_key (f_abr f), e))) \<and>
     (\<forall>k e. menu_item ba True f = Some (k, e) \<longrightarrow>
        priority e = 3 \<and> \<not> merge_needed e \<and> k = audio_only_key (f_abr f) \<and>
        resolution e = LabelAudioOnly (f_abr f) (str_upper (ext e))) \<and>
     (\<forall>e\<in>set (get_video_formats (Formats (xs @ f # ys)) sa).
        priority e \<noteq> 3 \<longrightarrow>
        (\<exists>g\<in>set (xs @ f # ys). g \<noteq> f \<and> truthy (f_height g) \<and>
           (\<exists>k. menu_item (best_audio_of (xs @ f # ys)) sa g = Some (k, e))))"
proof -
  let ?ds = "xs @ f # ys"
  have na: "\<not> is_audio_format f"
    using assms by (simp add: heightless_video_def is_audio_format_def)
  have nt: "\<not> truthy (f_height f)"
    using assms by (simp add: heightless_video_def truthy_def)
  have A: "menu_item ba False f = None" by (rule heightless_video_items(1)[OF assms])
  have B: "get_video_formats (Formats ?ds) False = get_video_formats (Formats (xs @ ys)) False"
    using na heightless_video_items(1)[OF assms] by (rule menu_drop_skipped)
  have C: "menu_item ba True f = None \<and>
           get_video_formats (Formats ?ds) True = get_video_formats (Formats (xs @ ys)) True"
    if c: "f_acodec f = None \<or> f_acodec f = Some ''none'' \<or>
           f_format_id f = None \<or> f_format_id f = Some []"
  proof
    show "menu_item ba True f = None" using c by (rule heightless_video_items(2)[OF assms])
    show "get_video_formats (Formats ?ds) True = get_video_formats (Formats (xs @ ys)) True"
      using na heightless_video_items(2)[OF assms c] by (rule menu_drop_skipped)
  qed
  have D: "menu_item ba True f \<noteq> None \<and>
        (\<exists>g\<in>set ?ds. \<exists>e\<in>set (get_video_formats (Formats ?ds) True).
           priority e = 3 \<and>
           menu_item (best_audio_of ?ds) True g = Some (audio_only_key (f_abr f), e))"
    if d: "f_acodec f \<noteq> None \<and> f_acodec f \<noteq> Some ''none'' \<and>
           f_format_id f \<noteq> None \<and> f_format_id f \<noteq> Some []"
  proof
    show "menu_item ba True f \<noteq> None"
      using d heightless_video_items(4)[OF assms] by blast
    have "menu_item (best_audio_of ?ds) True f \<noteq> None"
      using d heightless_video_items(4)[OF assms] by blast
    then obtain k e0 where i: "menu_item (best_audio_of ?ds) True f = Some (k, e0)" by auto
    from heightless_video_items(3)[OF assms i] have k: "k = audio_only_key (f_abr f)" by simp
    have "f \<in> set ?ds" by simp
    from menu_represents[OF this i] obtain g e where
      g: "g \<in> set ?ds" "e \<in> set (get_video_formats (Formats ?ds) True)"
         "menu_item (best_audio_of ?ds) True g = Some (k, e)" by blast
    from audio_only_key_class[OF g(3)[unfolded k]] have "priority e = 3" .
    with g k show "\<exists>g\<in>set ?ds. \<exists>e\<in>set (get_video_formats (Formats ?ds) True).
           priority e = 3 \<and>
           menu_item (best_audio_of ?ds) True g = Some (audio_only_key (f_abr f), e)"
      by blast
  qed
  have E: "\<forall>k e. menu_item ba True f = Some (k, e) \<longrightarrow>
        priority e = 3 \<and> \<not> merge_needed e \<and> k = audio_only_key (f_abr f) \<and>
        resolution e = LabelAudioOnly (f_abr f) (str_upper (ext e))"
    using heightless_video_items(3)[OF assms] by blast
  have F: "\<forall>e\<in>set (get_video_formats (Formats ?ds) sa).
        priority e \<noteq> 3 \<longrightarrow>
        (\<exists>g\<in>set ?ds. g \<noteq> f \<and> truthy (f_height g) \<and>
           (\<exists>k. menu_item (best_audio_of ?ds) sa g = Some (k, e)))"
  proof (intro ballI impI)
    fix e assume e: "e \<in> set (get_video_formats (Formats ?ds) sa)" "priority e \<noteq> 3"
    from video_entries_have_height[OF e] obtain g where
      g: "g \<in> set ?ds" "truthy (f_height g)"
         "\<exists>k. menu_item (best_audio_of ?ds) sa g = Some (k, e)" by blast
    from g(2) nt have "g \<noteq> f" by auto
    with g show "\<exists>g\<in>set ?ds. g \<noteq> f \<and> truthy (f_height g) \<and>
           (\<exists>k. menu_item (best_audio_of ?ds) sa g = Some (k, e))" by blast
  qed
  show ?thesis using A B C D E F by blast
qed

theorem heightless_video_not_a_video_entry_witness:
  "menu_item None False d_no_height = None \<and>
   get_video_formats (Formats [d_no_height]) False = [] \<and>
   menu_item None True d_no_height \<noteq> None \<and>
   get_video_formats (Formats [d_no_height]) True \<noteq> [] \<and>
   priority (hd (get_video_formats (Formats [d_no_height]) True)) = 3"
proof -
  have h: "heightless_video d_no_height"
    by (simp add: heightless_video_def d_no_height_def no_keys_def)
  have a: "f_acodec d_no_height \<noteq> None \<and> f_acodec d_no_height \<noteq> Some ''none'' \<and>
      f_format_id d_no_height \<noteq> None \<and> f_format_id d_no_height \<noteq> Some []"
    by (simp add: d_no_height_def no_keys_def)
  have empty: "get_video_formats (Formats []) False = []"
    by (simp add: get_video_formats_def best_audio_of_def sorted_reverse_def)
  note t = heightless_video_not_a_video_entry[OF h, of None "[]" "[]" True]
  from t a obtain e where
    e: "e \<in> set (get_video_formats (Formats [d_no_height]) True)" "priority e = 3"
    by auto
  have one: "length (get_video_formats (Formats [d_no_height]) True) = 1"
    by (simp add: no_height_menu)
  from e one have "get_video_formats (Formats [d_no_height]) True \<noteq> []"
    and "hd (get_video_formats (Formats [d_no_height]) True) = e"
    by (cases "get_video_formats (Formats [d_no_height]) True"; auto)+
  with t a e empty show ?thesis by simp
qed

section \<open>Entries with video and audio\<close>

text \<open>
  Where the height is known and not 0, an entry with video and audio is in class 1; so
  is every such entry when \<open>show_all\<close> is off.
\<close>

lemma complete_with_height_is_class_1:
  assumes "e \<in> set (get_video_formats (Formats ds) sa)" and "has_video e" and "has_audio e"
    and "height e \<noteq> 0 \<or> \<not> sa"
  shows "priority e = 1"
proof -
  from menu_sources[OF assms(1)] obtain f k where
    i: "menu_item (best_audio_of ds) sa f = Some (k, e)" by blast
  have "\<not> truthy (f_height f) \<Longrightarrow> height e = 0"
    using menu_item_fields(1)[OF i] by (simp add: truthy_def get0_def split: option.splits)
  with menu_item_cases[OF i] assms(2,3,4) show ?thesis by auto
qed


section \<open>download\_video: which calls are made\<close>

lemma get_video_info_Info:
  "extract_info w url = Info info \<Longrightarrow>
     \<exists>vi. get_video_info w url = (Some vi, [ExtractInfo url])"
  by (simp add: get_video_info_def)

lemma get_video_info_no_download:
  "get_video_info w url = (r, ev) \<Longrightarrow> download_calls ev = []"
  by (auto simp: get_video_info_def split: info_outcome.splits)

lemma download_calls_append:
  "download_calls (xs @ ys) = download_calls xs @ download_calls ys"
  by (induction xs rule: download_calls.induct) simp_all

lemma download_calls_on_failure: "download_calls (on_failure w outcome) = []"
  by (simp add: on_failure_def split: download_outcome.splits)

lemma sanitize_clip: "sanitize_filename (ascii ''clip'') = ascii ''clip''"
  by (simp add: sanitize_filename_def ascii_def remove_illegal_def illegal_char_def
        strip_def isspace_def)

lemma good_world_simps:
  "makedirs good_world p = None" "access_w good_world p" "download good_world n = Completed"
  "get_video_info good_world u =
     (Some \<lparr> title = ascii ''clip'', duration = 0, uploader = ascii ''Unknown'',
              video_id = [], thumbnail = [], description = [] \<rparr>, [ExtractInfo u])"
  by (simp_all add: good_world_def get_video_info_def get0_def)

lemma download_separate_good_world:
  "download_video good_world (ascii ''u'') option_137 (ascii ''/tmp'') ''separate'' =
     (True,
      [ExtractInfo (ascii ''u''), Markdown DownloadingSeparately,
       Download (ascii ''u'')
         \<lparr> opt_format = ''137'',
           opt_outtmpl = (ascii ''/tmp'', ascii ''clip'' @ ascii ''_video.%(ext)s''),
           opt_no_warnings = False, opt_postprocessors = [] \<rparr>,
       Download (ascii ''u'')
         \<lparr> opt_format = ''bestaudio'',
           opt_outtmpl = (ascii ''/tmp'', ascii ''clip'' @ ascii ''_audio.%(ext)s''),
           opt_no_warnings = False, opt_postprocessors = [] \<rparr>,
       Markdown DownloadedSeparately])"
  by (simp add: download_video_def Let_def good_world_simps sanitize_clip option_137_def)

text \<open>
  Claim C2, as stated: with the keep-separate policy the audio stream is requested with
  the option's \<open>best_audio_id\<close>. The option for format 137 carries the audio id 140,
  yet the second download call of the run does not ask for 140.
\<close>

theorem separate_audio_ignores_best_audio_id:
  "merge_needed option_137 \<and> best_audio_id option_137 = Some ''140'' \<and>
   download_formats
     (snd (download_video good_world (ascii ''u'') option_137 (ascii ''/tmp'') ''separate''))
     \<noteq> [''137'', ''140'']"
  by (simp add: download_separate_good_world) (simp add: option_137_def)

text \<open>
  Claim C2, amended: with a merge-needed option and the policy \<open>separate\<close>, once the
  directory is usable, the title is known and the video download has completed, the
  run makes exactly two download calls: the video with the option's format id, named
  \<open>_video\<close>, and the audio with the fixed selector \<open>bestaudio\<close>, named \<open>_audio\<close>,
  whatever \<open>best_audio_id\<close> holds.
\<close>

theorem separate_audio_is_bestaudio:
  assumes "merge_needed format_info" and "merge_option = ''separate''"
    and "makedirs w output_path = None" and "access_w w output_path"
    and "get_video_info w url = (Some info, ev)"
    and "download w 0 = Completed"
  shows "download_calls (snd (download_video w url format_info output_path merge_option)) =
           [\<lparr> opt_format = format_id format_info,
              opt_outtmpl = (output_path,
                             sanitize_filename (title info) @ ascii ''_video.%(ext)s''),
              opt_no_warnings = False, opt_postprocessors = [] \<rparr>,
            \<lparr> opt_format = ''bestaudio'',
              opt_outtmpl = (output_path,
                             sanitize_filename (title info) @ ascii ''_audio.%(ext)s''),
              opt_no_warnings = False, opt_postprocessors = [] \<rparr>]"
proof -
  have ev: "download_calls ev = []"
    using assms by (simp add: get_video_info_no_download)
  show ?thesis
    using assms
    by (simp add: download_video_def Let_def download_calls_append download_calls_on_failure ev
          split: download_outcome.splits)
qed

theorem separate_audio_is_bestaudio_witness:
  "download_calls
     (snd (download_video good_world (ascii ''u'') option_137 (ascii ''/tmp'') ''separate'')) =
     [\<lparr> opt_format = ''137'',
        opt_outtmpl = (ascii ''/tmp'', ascii ''clip'' @ ascii ''_video.%(ext)s''),
        opt_no_warnings = False, opt_postprocessors = [] \<rparr>,
      \<lparr> opt_format = ''bestaudio'',
        opt_outtmpl = (ascii ''/tmp'', ascii ''clip'' @ ascii ''_audio.%(ext)s''),
        opt_no_warnings = False, opt_postprocessors = [] \<rparr>]"
proof -
  have m: "merge_needed option_137" by (simp add: option_137_def)
  have f: "format_id option_137 = ''137''" by (simp add: option_137_def)
  show ?thesis
    using separate_audio_is_bestaudio
            [where w = good_world and url = "ascii ''u''" and output_path = "ascii ''/tmp''"
               and format_info = option_137 and merge_option = "''separate''",
             OF m refl good_world_simps(1) good_world_simps(2) good_world_simps(4)
                good_world_simps(3)]
    by (simp add: sanitize_clip f)
qed

text \<open>
  Claim C8: if the destination directory cannot be created, or is not writable, the
  run returns \<open>False\<close>, its only event is the error message about the directory, and
  no call to yt-dlp (metadata or download) is made.
\<close>

theorem directory_error_stops_run:
  assumes "makedirs w output_path \<noteq> None \<or> \<not> access_w w output_path"
  shows "fst (download_video w url format_info output_path merge_option) = False \<and>
         network_calls (snd (download_video w url format_info output_path merge_option)) = [] \<and>
         (snd (download_video w url format_info output_path merge_option) =
            [StError (NoWritePermission output_path)] \<or>
          (\<exists>e. snd (download_video w url format_info output_path merge_option) =
            [StError (CannotCreateDirectory e)]))"
proof (cases "makedirs w output_path")
  case None
  with assms have "\<not> access_w w output_path" by simp
  with None show ?thesis by (simp add: download_video_def)
next
  case (Some e)
  then show ?thesis by (simp add: download_video_def)
qed

theorem directory_error_stops_run_witness:
  "download_video (good_world \<lparr> makedirs := (\<lambda>p. Some (ascii ''denied'')) \<rparr>)
     (ascii ''u'') option_137 (ascii ''/tmp'') ''merge'' =
     (False, [StError (CannotCreateDirectory (ascii ''denied''))]) \<and>
   fst (download_video (good_world \<lparr> access_w := (\<lambda>p. False) \<rparr>)
     (ascii ''u'') option_137 (ascii ''/tmp'') ''merge'') = False"
proof -
  have 1: "makedirs (good_world \<lparr> makedirs := (\<lambda>p. Some (ascii ''denied'')) \<rparr>) (ascii ''/tmp'') \<noteq> None \<or>
           \<not> access_w (good_world \<lparr> makedirs := (\<lambda>p. Some (ascii ''denied'')) \<rparr>) (ascii ''/tmp'')"
    by simp
  have 2: "makedirs (good_world \<lparr> access_w := (\<lambda>p. False) \<rparr>) (ascii ''/tmp'') \<noteq> None \<or>
           \<not> access_w (good_world \<lparr> access_w := (\<lambda>p. False) \<rparr>) (ascii ''/tmp'')"
    by simp
  have a: "makedirs (good_world \<lparr> makedirs := (\<lambda>p. Some (ascii ''denied'')) \<rparr>) (ascii ''/tmp'')
             = Some (ascii ''denied'')"
    by simp
  show ?thesis
    using directory_error_stops_run
            [where url = "ascii ''u''" and format_info = option_137
               and merge_option = "''merge''", OF 1]
          directory_error_stops_run
            [where url = "ascii ''u''" and format_info = option_137
               and merge_option = "''merge''", OF 2]
    by (auto simp: download_video_def a prod_eq_iff)
qed

text \<open>
  Claim C9: a merge-needed option with a policy that is neither \<open>merge\<close> nor
  \<open>separate\<close> (such as the default \<open>auto\<close>) takes the plain branch: one download
  call, for the video-only format id alone, to \<open><title>.<ext>\<close>, with no
  post-processor; and when that download completes the run reports success.
\<close>

theorem other_policy_downloads_video_only:
  assumes "merge_needed format_info"
    and "merge_option \<noteq> ''merge''" and "merge_option \<noteq> ''separate''"
    and "makedirs w output_path = None" and "access_w w output_path"
    and "get_video_info w url = (Some info, ev)"
  shows "download_calls (snd (download_video w url format_info output_path merge_option)) =
           [\<lparr> opt_format = format_id format_info,
              opt_outtmpl = (output_path, sanitize_filename (title info) @ ascii ''.%(ext)s''),
              opt_no_warnings = True, opt_postprocessors = [] \<rparr>] \<and>
         (download w 0 = Completed \<longrightarrow>
            download_video w url format_info output_path merge_option =
              (True,
               ev @ [Download url
                       \<lparr> opt_format = format_id format_info,
                         opt_outtmpl = (output_path,
                                        sanitize_filename (title info) @ ascii ''.%(ext)s''),
                         opt_no_warnings = True, opt_postprocessors = [] \<rparr>,
                     Markdown DownloadCompleted]))"
proof -
  have ev: "download_calls ev = []"
    using assms by (simp add: get_video_info_no_download)
  show ?thesis
    using assms
    by (simp add: download_video_def Let_def download_calls_append download_calls_on_failure ev
          split: download_outcome.splits)
qed

theorem other_policy_downloads_video_only_witness:
  "download_video good_world (ascii ''u'') option_137 (ascii ''/tmp'') ''auto'' =
     (True,
      [ExtractInfo (ascii ''u''),
       Download (ascii ''u'')
         \<lparr> opt_format = ''137'',
           opt_outtmpl = (ascii ''/tmp'', ascii ''clip'' @ ascii ''.%(ext)s''),
           opt_no_warnings = True, opt_postprocessors = [] \<rparr>,
       Markdown DownloadCompleted])"
proof -
  have m: "merge_needed option_137" by (simp add: option_137_def)
  have f: "format_id option_137 = ''137''" by (simp add: option_137_def)
  have n1: "''auto'' \<noteq> ''merge''" and n2: "''auto'' \<noteq> ''separate''" by simp_all
  show ?thesis
    using other_policy_downloads_video_only
            [where w = good_world and url = "ascii ''u''" and output_path = "ascii ''/tmp''"
               and format_info = option_137 and merge_option = "''auto''",
             OF m n1 n2 good_world_simps(1) good_world_simps(2) good_world_simps(4)]
    by (simp add: sanitize_clip f good_world_simps(3))
qed


end
